theory Spec2Isabelle
  imports Complex_Main "HOL-Library.Sublist" "HOL-Library.Log_Nat"
begin

section \<open>Progress tracking utilities (progress.py)\<close>

text \<open>
  The module reads two files below a project directory and prints a short report.
  Every function is modelled on what its library calls observe: whether a file exists,
  and what reading it gives (a value or a raised exception).
\<close>

subsection \<open>Strings, exceptions and files\<close>

text \<open>
  A Python \<open>str\<close> is a sequence of Unicode code points, and \<open>len\<close> and \<open>in\<close> work on
  code points. The status markers of the module lie outside the 8-bit range, so a string
  is a list of code points here; \<open>ascii\<close> embeds an ASCII literal.
\<close>

type_synonym pystr = "nat list"

definition ascii :: "string \<Rightarrow> pystr" where
  "ascii s = map of_char s"

text \<open>The exceptions that the library calls of the module can raise.\<close>

datatype pyexc =
    OSError
  | JSONDecodeError
  | UnicodeDecodeError
  | AttributeError
  | TypeError
  | ZeroDivisionError
  | RecursionError
  | MemoryError
  | KeyboardInterrupt

text \<open>
  What the module sees of one file. \<open>Path.exists()\<close> is false (\<open>Missing\<close>); or it is
  true, and reading the file gives a value or raises (\<open>Exists\<close>); or \<open>exists()\<close> itself
  raises (\<open>Inaccessible\<close>): pathlib answers false only for the errors ENOENT, ENOTDIR,
  EBADF and ELOOP, and lets every other \<open>OSError\<close> of the \<open>stat\<close> call through, for
  instance the \<open>PermissionError\<close> of a directory that may not be searched.
\<close>

datatype 'a pyfile = Missing | Inaccessible | Exists "pyexc + 'a"

subsection \<open>Substring test and lower-casing\<close>

text \<open>Python's \<open>w in s\<close> on strings: \<open>w\<close> occurs in \<open>s\<close> as a contiguous block.\<close>

fun str_in :: "pystr \<Rightarrow> pystr \<Rightarrow> bool" where
  "str_in w [] = (w = [])"
| "str_in w (c # cs) = (prefix w (c # cs) \<or> str_in w cs)"

text \<open>
  \<open>str.lower()\<close> replaces every code point by its Unicode lower-case mapping. On ASCII
  that is \<open>A..Z\<close> to \<open>a..z\<close> and nothing else. The mapping of the code points from 128
  on is a table of the Python runtime (it may give several code points, and depends on
  the context for the final sigma); it is the parameter \<open>U\<close>, which gets the whole string
  and the position.
\<close>

definition lower_at :: "(pystr \<Rightarrow> nat \<Rightarrow> pystr) \<Rightarrow> pystr \<Rightarrow> nat \<Rightarrow> pystr" where
  "lower_at U s i =
     (let c = s ! i in
      if 65 \<le> c \<and> c \<le> 90 then [c + 32]
      else if c < 128 then [c]
      else U s i)"

definition lower :: "(pystr \<Rightarrow> nat \<Rightarrow> pystr) \<Rightarrow> pystr \<Rightarrow> pystr" where
  "lower U s = concat (map (lower_at U s) [0..<length s])"

subsection \<open>get_regression_status\<close>

definition passing_marker :: pystr where
  "passing_marker = 0x2705 # ascii '' Regression tests passing''"

definition failed_marker :: pystr where
  "failed_marker = 0x274C # ascii '' Regression tests failed''"

definition issues_marker :: pystr where
  "issues_marker = 0x26A0 # 0xFE0F # ascii '' Regression tests completed with issues''"

definition read_error_marker :: pystr where
  "read_error_marker = 0x26A0 # 0xFE0F # ascii '' Could not read regression results''"

definition not_yet_run_marker :: pystr where
  "not_yet_run_marker = 0x23F3 # ascii '' No regression tests run yet''"

text \<open>
  The argument is the state of \<open>summary.txt\<close> under
  \<open>project_dir.parent / tests / regression / results\<close>; the value read is the result of
  \<open>read_text()\<close>. The bare \<open>except:\<close> around the read and the classification catches
  every exception raised there. The call of \<open>exists()\<close> stands before the \<open>try\<close>: what it
  raises leaves the function.
\<close>

definition get_regression_status ::
  "(pystr \<Rightarrow> nat \<Rightarrow> pystr) \<Rightarrow> pystr pyfile \<Rightarrow> pyexc + pystr" where
  "get_regression_status U summary_file =
     (case summary_file of
        Inaccessible \<Rightarrow> Inl OSError
      | Exists r \<Rightarrow>
          (case r of
             Inr content \<Rightarrow>
               if str_in (ascii ''All tests completed successfully'') content
               then Inr passing_marker
               else if str_in (ascii ''failed'') (lower U content)
               then Inr failed_marker
               else Inr issues_marker
           | Inl e \<Rightarrow> Inr read_error_marker)
      | Missing \<Rightarrow> Inr not_yet_run_marker)"

text \<open>
  The reading of "contains \<open>w\<close> in any letter casing" that the classification is compared
  with: some block of the content equals \<open>w\<close> once the ASCII capitals of both are
  folded to small letters.
\<close>

definition ascii_fold :: "nat \<Rightarrow> nat" where
  "ascii_fold c = (if 65 \<le> c \<and> c \<le> 90 then c + 32 else c)"

definition any_casing :: "pystr \<Rightarrow> pystr \<Rightarrow> bool" where
  "any_casing w v = (map ascii_fold v = map ascii_fold w)"

fun contains_any_casing :: "pystr \<Rightarrow> pystr \<Rightarrow> bool" where
  "contains_any_casing w [] = (w = [])"
| "contains_any_casing w (c # cs) =
     (any_casing w (take (length w) (c # cs)) \<or> contains_any_casing w cs)"

text \<open>
  What is asked of the lower-case table at the code points of \<open>s\<close> from 128 on, with
  respect to a word \<open>w\<close>: the mapping is not empty, does not end in a code point of \<open>w\<close>,
  and has the last code point of \<open>w\<close> at most at its end. Unicode's table meets this for
  \<open>failed\<close>: the only code point from 128 on whose mapping has one of the letters
  \<open>f a i l e d\<close> is U+0130, which becomes \<open>i\<close> followed by U+0307.
\<close>

definition lower_table_ok :: "(pystr \<Rightarrow> nat \<Rightarrow> pystr) \<Rightarrow> pystr \<Rightarrow> pystr \<Rightarrow> bool" where
  "lower_table_ok U w s =
     (\<forall>i<length s. 128 \<le> s ! i \<longrightarrow>
        U s i \<noteq> [] \<and> last (U s i) \<notin> set w \<and> last w \<notin> set (butlast (U s i)))"

definition block_ok :: "pystr \<Rightarrow> nat \<Rightarrow> pystr \<Rightarrow> bool" where
  "block_ok w c b =
     (if c < 128 then b = [ascii_fold c]
      else b \<noteq> [] \<and> last b \<notin> set w \<and> last w \<notin> set (butlast b))"

text \<open>A table for examples: U+0130 as in Unicode, every other code point unchanged.\<close>

definition demo_table :: "pystr \<Rightarrow> nat \<Rightarrow> pystr" where
  "demo_table s i = (if s ! i = 0x130 then [0x69, 0x307] else [s ! i])"

subsection \<open>JSON values as Python objects\<close>

text \<open>
  \<open>json.load\<close> gives \<open>None\<close>, a \<open>bool\<close>, an \<open>int\<close>, a \<open>float\<close>, a \<open>str\<close>, a \<open>list\<close> or a
  \<open>dict\<close>. A \<open>dict\<close> is the list of its items in order; its keys are distinct. A finite
  \<open>float\<close> is the rational number it stands for (the sign of zero is dropped).
\<close>

datatype pyfloat = Finite rat | PosInf | NegInf | NaN

datatype json =
    JNull
  | JBool bool
  | JInt int
  | JFloat pyfloat
  | JString pystr
  | JArray "json list"
  | JObject "(pystr \<times> json) list"

text \<open>Truth value testing, as \<open>if\<close> applies it.\<close>

fun truthy :: "json \<Rightarrow> bool" where
  "truthy JNull = False"
| "truthy (JBool b) = b"
| "truthy (JInt n) = (n \<noteq> 0)"
| "truthy (JFloat x) = (x \<noteq> Finite 0)"
| "truthy (JString s) = (s \<noteq> [])"
| "truthy (JArray xs) = (xs \<noteq> [])"
| "truthy (JObject kvs) = (kvs \<noteq> [])"

text \<open>\<open>len(x)\<close>: defined on strings, lists and dicts, a \<open>TypeError\<close> on the rest.\<close>

fun py_len :: "json \<Rightarrow> pyexc + int" where
  "py_len (JString s) = Inr (int (length s))"
| "py_len (JArray xs) = Inr (int (length xs))"
| "py_len (JObject kvs) = Inr (int (length kvs))"
| "py_len _ = Inl TypeError"

text \<open>
  \<open>for test in x\<close>: the elements of a list, the keys of a dict, the one-character
  strings of a string.
\<close>

fun py_iter :: "json \<Rightarrow> pyexc + json list" where
  "py_iter (JString s) = Inr (map (\<lambda>c. JString [c]) s)"
| "py_iter (JArray xs) = Inr xs"
| "py_iter (JObject kvs) = Inr (map (\<lambda>kv. JString (fst kv)) kvs)"
| "py_iter _ = Inl TypeError"

text \<open>\<open>x.get(k, d)\<close>: only a dict has the method; on anything else an \<open>AttributeError\<close>.\<close>

fun py_get :: "json \<Rightarrow> pystr \<Rightarrow> json \<Rightarrow> pyexc + json" where
  "py_get (JObject kvs) k d = Inr (case map_of kvs k of Some v \<Rightarrow> v | None \<Rightarrow> d)"
| "py_get _ k d = Inl AttributeError"

subsection \<open>count_passing_tests\<close>

text \<open>
  \<open>sum(1 for test in tests if test.get("passes", False))\<close>: the generator is consumed
  from left to right, and the first entry without \<open>get\<close> raises.
\<close>

fun sum_passing :: "json list \<Rightarrow> int \<Rightarrow> pyexc + int" where
  "sum_passing [] acc = Inr acc"
| "sum_passing (test # rest) acc =
     (case py_get test (ascii ''passes'') (JBool False) of
        Inl e \<Rightarrow> Inl e
      | Inr v \<Rightarrow> sum_passing rest (if truthy v then acc + 1 else acc))"

text \<open>The statements of the \<open>try\<close> block after \<open>json.load\<close> has returned \<open>tests\<close>.\<close>

definition count_loaded :: "json \<Rightarrow> pyexc + int \<times> int" where
  "count_loaded tests =
     (case py_len tests of
        Inl e \<Rightarrow> Inl e
      | Inr total' \<Rightarrow>
          (case py_iter tests of
             Inl e \<Rightarrow> Inl e
           | Inr entries \<Rightarrow>
               (case sum_passing entries 0 of
                  Inl e \<Rightarrow> Inl e
                | Inr passing \<Rightarrow> Inr (passing, total'))))"

text \<open>
  \<open>except (json.JSONDecodeError, IOError)\<close>: \<open>IOError\<close> is \<open>OSError\<close>; a
  \<open>UnicodeDecodeError\<close> is a \<open>ValueError\<close> beside \<open>JSONDecodeError\<close>, not below it.
\<close>

definition handled :: "pyexc \<Rightarrow> bool" where
  "handled e = (e = JSONDecodeError \<or> e = OSError)"

text \<open>
  The argument is the state of \<open>project_dir / feature_list.json\<close>; the value read is the
  result of \<open>open\<close> and \<open>json.load\<close>. Here too \<open>exists()\<close> is called before the \<open>try\<close>.
\<close>

definition count_passing_tests :: "json pyfile \<Rightarrow> pyexc + int \<times> int" where
  "count_passing_tests tests_file =
     (case tests_file of
        Inaccessible \<Rightarrow> Inl OSError
      | Missing \<Rightarrow> Inr (0, 0)
      | Exists r \<Rightarrow>
          (case (case r of Inl e \<Rightarrow> Inl e | Inr tests \<Rightarrow> count_loaded tests) of
             Inr res \<Rightarrow> Inr res
           | Inl e \<Rightarrow> if handled e then Inr (0, 0) else Inl e))"

text \<open>
  The count that the feature list is compared with: an entry passes when it has a
  \<open>passes\<close> field and the field is truthy.
\<close>

definition entry_passes :: "(pystr \<times> json) list \<Rightarrow> bool" where
  "entry_passes d = (case map_of d (ascii ''passes'') of None \<Rightarrow> False | Some v \<Rightarrow> truthy v)"

subsection \<open>Printing\<close>

text \<open>\<open>str\<close> of an \<open>int\<close>, as an f-string inserts it: decimal digits, a minus sign first.\<close>

function str_nat :: "nat \<Rightarrow> pystr" where
  "str_nat n = (if n < 10 then [48 + n] else str_nat (n div 10) @ [48 + n mod 10])"
  by pat_completeness auto
termination
  by (relation "measure id") auto

declare str_nat.simps [simp del]

definition str_int :: "int \<Rightarrow> pystr" where
  "str_int i = (if i < 0 then 45 # str_nat (nat (- i)) else str_nat (nat i))"

text \<open>
  The percentage is a \<open>float\<close>, a binary64 number. The finite ones are rationals, and
  every operation gives the representable number nearest to the exact result, the even
  one at a tie. \<open>binade x\<close> is the exponent \<open>e\<close> with \<open>2^e \<le> x < 2^(e+1)\<close>; the
  representable numbers there are the multiples of \<open>2^(e-52)\<close>, and of \<open>2^(-1074)\<close> below
  the normal range. Results of \<open>2^1024\<close> and more (an overflow) do not arise here: the
  quotient is at most 1 and the product at most 100.
\<close>

definition round_half_even :: "rat \<Rightarrow> int" where
  "round_half_even x =
     (let f = \<lfloor>x\<rfloor>; d = x - of_int f in
      if d < 1 / 2 then f
      else if 1 / 2 < d then f + 1
      else if even f then f else f + 1)"

definition binade :: "rat \<Rightarrow> int" where
  "binade x = (if 1 \<le> x then bitlen \<lfloor>x\<rfloor> - 1 else - bitlen (\<lceil>1 / x\<rceil> - 1))"

definition round_double :: "rat \<Rightarrow> rat" where
  "round_double x =
     (if x = 0 then 0
      else let q = 2 powi (max (binade \<bar>x\<bar> - 52) (- 1074))
           in of_int (round_half_even (x / q)) * q)"

text \<open>
  \<open>a / b\<close> on two \<open>int\<close>s: true division, which gives the \<open>float\<close> nearest to the exact
  quotient, and raises when \<open>b\<close> is zero.
\<close>

definition float_quotient :: "int \<Rightarrow> int \<Rightarrow> rat" where
  "float_quotient a b = round_double (of_int a / of_int b)"

definition float_div :: "int \<Rightarrow> int \<Rightarrow> pyexc + rat" where
  "float_div a b = (if b = 0 then Inl ZeroDivisionError else Inr (float_quotient a b))"

definition float_mul :: "rat \<Rightarrow> rat \<Rightarrow> rat" where
  "float_mul x y = round_double (x * y)"

text \<open>
  The format \<open>.1f\<close>: the decimal with one digit after the point nearest to the exact
  value of the \<open>float\<close>, the even one at a tie.
\<close>

definition format_1f :: "rat \<Rightarrow> pystr" where
  "format_1f x =
     (let n = round_half_even (\<bar>x\<bar> * 10);
          digits = str_int (n div 10) @ ascii ''.'' @ str_int (n mod 10)
      in if x < 0 then 45 # digits else digits)"

text \<open>
  Standard output is the text written so far; \<open>print(s)\<close> appends \<open>s\<close> and a newline
  (code point 10).
\<close>

definition print_line :: "pystr \<Rightarrow> pystr \<Rightarrow> pystr" where
  "print_line out s = out @ s @ [10]"

subsection \<open>print_session_header\<close>

definition print_session_header :: "int \<Rightarrow> bool \<Rightarrow> pystr \<Rightarrow> pystr" where
  "print_session_header session_num is_initializer out =
     (let session_type = (if is_initializer then ascii ''INITIALIZER'' else ascii ''CODING AGENT'');
          out = print_line out ([10] @ replicate 70 61);
          out = print_line out
                  (ascii ''  SESSION '' @ str_int session_num @ ascii '': '' @ session_type);
          out = print_line out (replicate 70 61)
      in print_line out [])"

subsection \<open>print_progress_summary\<close>

text \<open>
  The two arguments after the table are the states of \<open>feature_list.json\<close> and of
  \<open>summary.txt\<close> for the project directory. Both queries are made before the first
  \<open>print\<close>: an exception of either leaves the function with nothing printed.
\<close>

definition print_progress_summary ::
  "(pystr \<Rightarrow> nat \<Rightarrow> pystr) \<Rightarrow> json pyfile \<Rightarrow> pystr pyfile \<Rightarrow> pystr \<Rightarrow> pyexc + pystr" where
  "print_progress_summary U tests_file summary_file out =
     (case count_passing_tests tests_file of
        Inl e \<Rightarrow> Inl e
      | Inr (passing, total') \<Rightarrow>
          (case get_regression_status U summary_file of
             Inl e \<Rightarrow> Inl e
           | Inr regression_status \<Rightarrow>
               (case
                  (if total' > 0
                   then (case float_div passing total' of
                           Inl e \<Rightarrow> Inl e
                         | Inr ratio \<Rightarrow>
                             let percentage = float_mul ratio 100
                             in Inr (print_line out
                                  ([10] @ ascii ''Progress: '' @ str_int passing @ ascii ''/'' @
                                   str_int total' @ ascii '' tests passing ('' @
                                   format_1f percentage @ ascii ''%)'')))
                   else Inr (print_line out
                          ([10] @ ascii ''Progress: feature_list.json not yet created'')))
                of
                  Inl e \<Rightarrow> Inl e
                | Inr out \<Rightarrow>
                    Inr (print_line out (ascii ''Regression Status: '' @ regression_status)))))"

subsection \<open>Notions the properties are stated with\<close>

text \<open>The number that a string of decimal digits denotes.\<close>

definition decimal_value :: "pystr \<Rightarrow> nat" where
  "decimal_value ds = foldl (\<lambda>a d. 10 * a + (d - 48)) 0 ds"

text \<open>
  A line shows \<open>label\<close> centred in \<open>width\<close> columns: after the leading spaces comes the
  label, and the margins left and right of it differ by at most one.
\<close>

definition centered_in :: "nat \<Rightarrow> pystr \<Rightarrow> pystr \<Rightarrow> bool" where
  "centered_in width label line =
     (let l = length (takeWhile (\<lambda>c. c = 32) line);
          r = width - (l + length label)
      in take (length label) (drop l line) = label \<and> l + length label \<le> width \<and>
         (l = r \<or> l = r + 1 \<or> r = l + 1))"

text \<open>A value that is a \<open>dict\<close>.\<close>

fun is_mapping :: "json \<Rightarrow> bool" where
  "is_mapping (JObject kvs) = True"
| "is_mapping _ = False"

text \<open>The feature list \<open>[{"passes": true}, {"passes": false}, {}]\<close>.\<close>

definition scenario_list :: json where
  "scenario_list = JArray [JObject [(ascii ''passes'', JBool True)],
      JObject [(ascii ''passes'', JBool False)], JObject []]"

text \<open>A feature list of 80 mappings, of which the first 23 have \<open>"passes": true\<close>.\<close>

definition list_23_of_80 :: json where
  "list_23_of_80 =
     JArray (map JObject (replicate 23 [(ascii ''passes'', JBool True)] @ replicate 57 []))"

section \<open>Properties\<close>

subsection \<open>Substrings and letter case\<close>

lemma ascii_fold_idem [simp]: "ascii_fold (ascii_fold c) = ascii_fold c"
  by (simp add: ascii_fold_def)

lemma map_ascii_fold_idem [simp]: "map ascii_fold (map ascii_fold v) = map ascii_fold v"
  by (induction v) simp_all

lemma str_in_sublist: "str_in w s = sublist w s"
  by (induction s) (simp_all add: sublist_Cons_right)

lemma contains_any_casing_iff:
  "contains_any_casing w s \<longleftrightarrow> (\<exists>ps v ss. s = ps @ v @ ss \<and> any_casing w v)"
proof (induction s)
  case Nil
  show ?case by (auto simp: any_casing_def)
next
  case (Cons c cs)
  show ?case
  proof
    assume "contains_any_casing w (c # cs)"
    then consider "any_casing w (take (length w) (c # cs))" | "contains_any_casing w cs"
      by auto
    then show "\<exists>ps v ss. c # cs = ps @ v @ ss \<and> any_casing w v"
    proof cases
      case 1
      have "c # cs = [] @ take (length w) (c # cs) @ drop (length w) (c # cs)"
        by simp
      with 1 show ?thesis by blast
    next
      case 2
      with Cons.IH obtain ps v ss where "cs = ps @ v @ ss" "any_casing w v" by blast
      then have "c # cs = (c # ps) @ v @ ss" by simp
      with \<open>any_casing w v\<close> show ?thesis by blast
    qed
  next
    assume "\<exists>ps v ss. c # cs = ps @ v @ ss \<and> any_casing w v"
    then obtain ps v ss where d: "c # cs = ps @ v @ ss" and a: "any_casing w v" by blast
    from a have len: "length v = length w"
      unfolding any_casing_def by (metis length_map)
    show "contains_any_casing w (c # cs)"
    proof (cases ps)
      case Nil
      with d len have "take (length w) (c # cs) = v" by (metis append_Nil append_eq_conv_conj)
      with a show ?thesis by simp
    next
      case (Cons p ps')
      with d have "cs = ps' @ v @ ss" by simp
      with a Cons.IH have "contains_any_casing w cs" by blast
      then show ?thesis by simp
    qed
  qed
qed

lemma bad_block_prefix:
  assumes b: "b \<noteq> []" "last b \<notin> set w" "last w \<notin> set (butlast b)"
    and v: "v \<noteq> []" "set v \<subseteq> set w" "last v = last w"
    and p: "prefix v (b @ r)"
  shows False
proof -
  from p consider "prefix v b" | us where "v = b @ us"
    by (auto simp: prefix_append)
  then show False
  proof cases
    case 1
    then obtain t where t: "b = v @ t" by (auto simp: prefix_def)
    show False
    proof (cases "t = []")
      case True
      with t have "last b = last v" by simp
      moreover from v have "last v \<in> set w" by (metis last_in_set subsetD)
      ultimately show False using b by simp
    next
      case False
      with t have "butlast b = v @ butlast t" by (simp add: butlast_append)
      moreover from v have "last w \<in> set v" by (metis last_in_set)
      ultimately show False using b by simp
    qed
  next
    case 2
    with b have "last b \<in> set v" by simp
    with v b show False by auto
  qed
qed

lemma prefix_blocks:
  assumes "list_all2 (block_ok w) s bs" "prefix v (concat bs)" "set v \<subseteq> set w"
    "v \<noteq> [] \<Longrightarrow> last v = last w"
  shows "map ascii_fold (take (length v) s) = v"
  using assms
proof (induction s bs arbitrary: v rule: list_all2_induct)
  case Nil
  then show ?case by simp
next
  case (Cons c cs b bs)
  show ?case
  proof (cases v)
    case Nil
    then show ?thesis by simp
  next
    case v: (Cons y v')
    show ?thesis
    proof (cases "c < 128")
      case True
      with Cons.hyps have b: "b = [ascii_fold c]" by (simp add: block_ok_def)
      with Cons.prems v have y: "y = ascii_fold c" and p: "prefix v' (concat bs)" by auto
      from Cons.prems v have "set v' \<subseteq> set w" by auto
      moreover from Cons.prems v have "v' \<noteq> [] \<Longrightarrow> last v' = last w" by auto
      ultimately have "map ascii_fold (take (length v') cs) = v'"
        using Cons.IH p by blast
      with v y show ?thesis by simp
    next
      case False
      with Cons.hyps have "b \<noteq> []" "last b \<notin> set w" "last w \<notin> set (butlast b)"
        by (simp_all add: block_ok_def)
      moreover from Cons.prems v have "v \<noteq> []" "set v \<subseteq> set w" "last v = last w" by auto
      moreover from Cons.prems have "prefix v (b @ concat bs)" by simp
      ultimately have False by (rule bad_block_prefix)
      then show ?thesis ..
    qed
  qed
qed

lemma occurrence_blocks:
  assumes "list_all2 (block_ok w) s bs" "sublist w (concat bs)" "w \<noteq> []"
  shows "contains_any_casing w s"
  using assms
proof (induction s bs rule: list_all2_induct)
  case Nil
  then show ?case by simp
next
  case (Cons c cs b bs)
  from Cons.prems have "sublist w (b @ concat bs)" by simp
  then consider (right) "sublist w (concat bs)"
    | (left) "sublist w b"
    | (over) w1 w2 where "w = w1 @ w2" "w1 \<noteq> []" "suffix w1 b" "prefix w2 (concat bs)"
  proof -
    assume r: "sublist w (concat bs) \<Longrightarrow> thesis" and l: "sublist w b \<Longrightarrow> thesis"
      and ov: "\<And>w1 w2. w = w1 @ w2 \<Longrightarrow> w1 \<noteq> [] \<Longrightarrow> suffix w1 b \<Longrightarrow>
                 prefix w2 (concat bs) \<Longrightarrow> thesis"
    from \<open>sublist w (b @ concat bs)\<close> consider "sublist w b" | "sublist w (concat bs)"
      | w1 w2 where "w = w1 @ w2" "suffix w1 b" "prefix w2 (concat bs)"
      by (auto simp: sublist_append)
    then show thesis
    proof cases
      case 1 then show ?thesis by (rule l)
    next
      case 2 then show ?thesis by (rule r)
    next
      case 3
      show ?thesis
      proof (cases "w1 = []")
        case True
        with 3 have "sublist w (concat bs)" by simp
        then show ?thesis by (rule r)
      next
        case False
        with 3 show ?thesis by (intro ov)
      qed
    qed
  qed
  then show ?case
  proof cases
    case right
    with Cons show ?thesis by simp
  next
    case left
    show ?thesis
    proof (cases "c < 128")
      case True
      with Cons.hyps have "b = [ascii_fold c]" by (simp add: block_ok_def)
      with left \<open>w \<noteq> []\<close> have "w = [ascii_fold c]"
        by (cases w) (auto simp: sublist_Cons_right)
      then show ?thesis by (simp add: any_casing_def)
    next
      case False
      with Cons.hyps have b: "b \<noteq> []" "last b \<notin> set w" "last w \<notin> set (butlast b)"
        by (simp_all add: block_ok_def)
      from left obtain ps ss where "b = ps @ w @ ss" by (auto simp: sublist_def)
      then have "prefix w (drop (length ps) b @ [])" by simp
      moreover from b have "drop (length ps) b \<noteq> []"
        using \<open>b = ps @ w @ ss\<close> \<open>w \<noteq> []\<close> by simp
      moreover have "last (drop (length ps) b) = last b"
        using \<open>b = ps @ w @ ss\<close> \<open>w \<noteq> []\<close> by simp
      moreover have "set (butlast (drop (length ps) b)) \<subseteq> set (butlast b)"
        using \<open>b = ps @ w @ ss\<close> \<open>w \<noteq> []\<close> by (auto simp: butlast_append)
      ultimately have False
        using bad_block_prefix [of "drop (length ps) b" w w "[]"] b \<open>w \<noteq> []\<close> by auto
      then show ?thesis ..
    qed
  next
    case over
    show ?thesis
    proof (cases "c < 128")
      case True
      with Cons.hyps have b: "b = [ascii_fold c]" by (simp add: block_ok_def)
      with over have "w1 = b" by (cases w1) (auto simp: suffix_Cons)
      with over have "prefix w (concat (b # bs))" by simp
      moreover from Cons.hyps have "list_all2 (block_ok w) (c # cs) (b # bs)" by simp
      ultimately have m: "map ascii_fold (take (length w) (c # cs)) = w"
        using prefix_blocks [of w "c # cs" "b # bs" w] by blast
      then have "map ascii_fold (map ascii_fold (take (length w) (c # cs))) = map ascii_fold w"
        by (rule arg_cong)
      then have "any_casing w (take (length w) (c # cs))"
        unfolding any_casing_def map_ascii_fold_idem .
      then show ?thesis by simp
    next
      case False
      with Cons.hyps have "last b \<notin> set w" "b \<noteq> []" by (simp_all add: block_ok_def)
      moreover from over have "last w1 = last b" by (auto simp: suffix_def)
      moreover from over have "last w1 \<in> set w" by simp
      ultimately show ?thesis by simp
    qed
  qed
qed

lemma lower_blocks:
  assumes "lower_table_ok U w s"
  shows "list_all2 (block_ok w) s (map (lower_at U s) [0..<length s])"
  using assms
  by (auto simp: list_all2_conv_all_nth lower_table_ok_def block_ok_def lower_at_def
      ascii_fold_def Let_def)

lemma ascii_blocks_concat:
  assumes "list_all2 (\<lambda>c b. c < 128 \<longrightarrow> b = [ascii_fold c]) v vs" "\<forall>c\<in>set v. c < 128"
  shows "concat vs = map ascii_fold v"
  using assms by (induction v vs rule: list_all2_induct) simp_all

lemma lower_ascii_blocks:
  "list_all2 (\<lambda>c b. c < 128 \<longrightarrow> b = [ascii_fold c]) s (map (lower_at U s) [0..<length s])"
  by (auto simp: list_all2_conv_all_nth lower_at_def ascii_fold_def Let_def)

lemma casing_in_lower:
  assumes c: "contains_any_casing w s" and a: "\<forall>x\<in>set w. x < 128"
    and f: "map ascii_fold w = w"
  shows "str_in w (lower U s)"
proof -
  from c obtain ps v ss where s: "s = ps @ v @ ss" and v: "map ascii_fold v = w"
    by (auto simp: contains_any_casing_iff any_casing_def f)
  have small: "\<forall>c\<in>set v. c < 128"
  proof
    fix c assume "c \<in> set v"
    then have "ascii_fold c \<in> set w" using v by auto
    with a have "ascii_fold c < 128" by blast
    then show "c < 128" by (simp add: ascii_fold_def split: if_splits)
  qed
  let ?Q = "\<lambda>c b. c < 128 \<longrightarrow> b = [ascii_fold c]"
  have "list_all2 ?Q (ps @ v @ ss) (map (lower_at U s) [0..<length s])"
    using lower_ascii_blocks [of s U] s by simp
  then obtain us r where r: "map (lower_at U s) [0..<length s] = us @ r"
    and "list_all2 ?Q (v @ ss) r"
    by (auto simp: list_all2_append1)
  then obtain vs ws where "r = vs @ ws" and "list_all2 ?Q v vs"
    by (auto simp: list_all2_append1)
  with small have "concat vs = map ascii_fold v" by (intro ascii_blocks_concat)
  with r \<open>r = vs @ ws\<close> v have "lower U s = concat us @ w @ concat ws"
    by (simp add: lower_def)
  then show ?thesis by (simp add: str_in_sublist)
qed

lemma lower_in_casing:
  assumes "lower_table_ok U w s" "str_in w (lower U s)" "w \<noteq> []"
  shows "contains_any_casing w s"
  using assms lower_blocks [of U w s] occurrence_blocks [of w s "map (lower_at U s) [0..<length s]"]
  by (simp add: str_in_sublist lower_def)

lemma ascii_failed: "ascii ''failed'' = [102, 97, 105, 108, 101, 100]"
  by (simp add: ascii_def)

text \<open>
  C1: for a summary file that exists and is read as \<open>content\<close>, the status follows this
  order: the Passing marker when \<open>content\<close> has the phrase "All tests completed
  successfully" (whether or not it also has "failed"); otherwise the Failed marker when
  \<open>content\<close> has "failed" in some letter casing; otherwise the CompletedWithIssues marker.
  The last case reads the lower-case table of the runtime, and is stated for a table that
  is \<open>lower_table_ok\<close> on the content.
\<close>

theorem get_regression_status_classification:
  "(str_in (ascii ''All tests completed successfully'') content \<longrightarrow>
      get_regression_status U (Exists (Inr content)) = Inr passing_marker) \<and>
   (\<not> str_in (ascii ''All tests completed successfully'') content \<and>
    contains_any_casing (ascii ''failed'') content \<longrightarrow>
      get_regression_status U (Exists (Inr content)) = Inr failed_marker) \<and>
   (\<not> str_in (ascii ''All tests completed successfully'') content \<and>
    \<not> contains_any_casing (ascii ''failed'') content \<and>
    lower_table_ok U (ascii ''failed'') content \<longrightarrow>
      get_regression_status U (Exists (Inr content)) = Inr issues_marker)"
proof (intro conjI impI)
  assume "str_in (ascii ''All tests completed successfully'') content"
  then show "get_regression_status U (Exists (Inr content)) = Inr passing_marker"
    by (simp add: get_regression_status_def)
next
  assume a: "\<not> str_in (ascii ''All tests completed successfully'') content \<and>
    contains_any_casing (ascii ''failed'') content"
  then have "str_in (ascii ''failed'') (lower U content)"
    by (intro casing_in_lower) (simp_all add: ascii_failed ascii_fold_def)
  with a show "get_regression_status U (Exists (Inr content)) = Inr failed_marker"
    by (simp add: get_regression_status_def)
next
  assume a: "\<not> str_in (ascii ''All tests completed successfully'') content \<and>
    \<not> contains_any_casing (ascii ''failed'') content \<and>
    lower_table_ok U (ascii ''failed'') content"
  then have "\<not> str_in (ascii ''failed'') (lower U content)"
    using lower_in_casing [of U "ascii ''failed''" content] by (auto simp: ascii_failed)
  with a show "get_regression_status U (Exists (Inr content)) = Inr issues_marker"
    by (simp add: get_regression_status_def)
qed

theorem get_regression_status_classification_witness:
  "get_regression_status demo_table
     (Exists (Inr (ascii ''1 failed, then All tests completed successfully''))) =
     Inr passing_marker \<and>
   get_regression_status demo_table (Exists (Inr (ascii ''2 tests FAILED''))) =
     Inr failed_marker \<and>
   get_regression_status demo_table (Exists (Inr [70, 65, 0x130, 76, 69, 68])) =
     Inr issues_marker"
proof -
  let ?ok = "ascii ''All tests completed successfully''"
  have 1: "str_in ?ok (ascii ''1 failed, then All tests completed successfully'')"
    by (simp add: ascii_def)
  have 2: "\<not> str_in ?ok (ascii ''2 tests FAILED'') \<and>
      contains_any_casing (ascii ''failed'') (ascii ''2 tests FAILED'')"
    by (simp add: ascii_def any_casing_def ascii_fold_def)
  have 3: "\<not> str_in ?ok [70, 65, 0x130, 76, 69, 68] \<and>
      \<not> contains_any_casing (ascii ''failed'') [70, 65, 0x130, 76, 69, 68] \<and>
      lower_table_ok demo_table (ascii ''failed'') [70, 65, 0x130, 76, 69, 68]"
    by (simp add: ascii_def any_casing_def ascii_fold_def lower_table_ok_def demo_table_def
        nth_Cons' less_Suc_eq)
  show ?thesis
    using 1 2 3
      get_regression_status_classification
        [of "ascii ''1 failed, then All tests completed successfully''" demo_table]
      get_regression_status_classification [of "ascii ''2 tests FAILED''" demo_table]
      get_regression_status_classification [of "[70, 65, 0x130, 76, 69, 68]" demo_table]
    by blast
qed

subsection \<open>The regression status\<close>

text \<open>
  C3: the status is the NotYetRun marker when the summary file does not exist, and the
  ReadError marker when the file exists and reading it raises, whatever the exception;
  no failure is to reach the caller. The first two hold. The third does not: when
  \<open>exists()\<close> itself raises, as for a results directory that may not be searched, the
  \<open>OSError\<close> is raised before the \<open>try\<close> is entered and reaches the caller.
\<close>

theorem get_regression_status_exists_raises:
  "get_regression_status U Missing = Inr not_yet_run_marker \<and>
   get_regression_status U (Exists (Inl OSError)) = Inr read_error_marker \<and>
   get_regression_status U (Exists (Inl e)) = Inr read_error_marker \<and>
   get_regression_status U Inaccessible = Inl OSError"
  by (simp add: get_regression_status_def)

lemma markers_distinct:
  "distinct [passing_marker, failed_marker, issues_marker, not_yet_run_marker, read_error_marker]"
  by (simp add: passing_marker_def failed_marker_def issues_marker_def not_yet_run_marker_def
      read_error_marker_def ascii_def)

lemma status_of_existing:
  "\<exists>m. get_regression_status U (Exists r) = Inr m \<and>
     m \<in> set [passing_marker, failed_marker, issues_marker, read_error_marker]"
  by (cases r) (simp_all add: get_regression_status_def)

text \<open>
  C8: the function is to return one of five fixed strings, and never to raise, for every
  state of the file system. It returns one of the five markers, which are pairwise
  different, when the file is missing and when it exists (read with any content, or
  unreadable with any exception: a decode error gives the ReadError marker). It is not
  total: the handler guards the read and the classification only, and in the state
  where \<open>exists()\<close> raises the function raises \<open>OSError\<close>.
\<close>

theorem get_regression_status_not_total:
  "get_regression_status U Inaccessible = Inl OSError \<and>
   (\<exists>m. get_regression_status U Missing = Inr m \<and>
        m \<in> set [passing_marker, failed_marker, issues_marker, not_yet_run_marker,
                  read_error_marker]) \<and>
   (\<exists>m. get_regression_status U (Exists r) = Inr m \<and>
        m \<in> set [passing_marker, failed_marker, issues_marker, not_yet_run_marker,
                  read_error_marker]) \<and>
   distinct [passing_marker, failed_marker, issues_marker, not_yet_run_marker,
             read_error_marker] \<and>
   get_regression_status U (Exists (Inl UnicodeDecodeError)) = Inr read_error_marker"
proof -
  from status_of_existing [of U r]
  have "\<exists>m. get_regression_status U (Exists r) = Inr m \<and>
        m \<in> set [passing_marker, failed_marker, issues_marker, not_yet_run_marker,
                  read_error_marker]"
    by auto
  moreover have "get_regression_status U Missing = Inr not_yet_run_marker"
    "get_regression_status U Inaccessible = Inl OSError"
    "get_regression_status U (Exists (Inl UnicodeDecodeError)) = Inr read_error_marker"
    by (simp_all add: get_regression_status_def)
  ultimately show ?thesis using markers_distinct by simp
qed

subsection \<open>Counting\<close>

lemma sum_passing_objects:
  "sum_passing (map JObject ds) acc = Inr (acc + int (length (filter entry_passes ds)))"
  by (induction ds arbitrary: acc) (simp_all add: entry_passes_def split: option.splits)

text \<open>
  C4: for a feature list that is a JSON array of \<open>N\<close> mappings the result is \<open>(K, N)\<close>,
  \<open>K\<close> the number of entries whose \<open>passes\<close> field is truthy; an entry without the key
  does not pass, and an entry whose \<open>passes\<close> field is \<open>v\<close> passes exactly when \<open>v\<close> is
  truthy.
\<close>

theorem count_passing_tests_counts:
  "count_passing_tests (Exists (Inr (JArray (map JObject ds)))) =
     Inr (int (length (filter entry_passes ds)), int (length ds)) \<and>
   \<not> entry_passes (filter (\<lambda>kv. fst kv \<noteq> ascii ''passes'') d) \<and>
   entry_passes ((ascii ''passes'', v) # d) = truthy v \<and>
   \<not> entry_passes [] \<and>
   \<not> entry_passes [(ascii ''passes'', JBool False)] \<and>
   \<not> entry_passes [(ascii ''passes'', JNull)] \<and>
   \<not> entry_passes [(ascii ''passes'', JInt 0)]"
proof -
  have "map_of (filter (\<lambda>kv. fst kv \<noteq> ascii ''passes'') d) (ascii ''passes'') = None"
    by (induction d) auto
  then have "\<not> entry_passes (filter (\<lambda>kv. fst kv \<noteq> ascii ''passes'') d)"
    by (simp add: entry_passes_def)
  then show ?thesis
    by (simp add: count_passing_tests_def count_loaded_def sum_passing_objects entry_passes_def)
qed

lemma sum_passing_bounds:
  "sum_passing ts acc = Inr n \<Longrightarrow> acc \<le> n \<and> n \<le> acc + int (length ts)"
proof (induction ts arbitrary: acc)
  case Nil
  then show ?case by simp
next
  case (Cons t ts)
  then show ?case by (fastforce split: sum.splits if_splits)
qed

lemma py_len_iter: "py_len x = Inr n \<Longrightarrow> py_iter x = Inr ts \<Longrightarrow> n = int (length ts)"
  by (cases x) auto

lemma count_loaded_bounds:
  assumes "count_loaded tests = Inr (p, t)"
  shows "0 \<le> p \<and> p \<le> t"
proof -
  from assms obtain ts where l: "py_len tests = Inr t" and i: "py_iter tests = Inr ts"
    and s: "sum_passing ts 0 = Inr p"
    by (auto simp: count_loaded_def split: sum.splits)
  from l i have "t = int (length ts)" by (rule py_len_iter)
  with sum_passing_bounds [OF s] show ?thesis by simp
qed

lemma count_result_bounds:
  assumes "count_passing_tests tests_file = Inr (passing, total')"
  shows "0 \<le> passing \<and> passing \<le> total'"
proof (cases tests_file)
  case Missing
  with assms show ?thesis by (simp add: count_passing_tests_def)
next
  case Inaccessible
  with assms show ?thesis by (simp add: count_passing_tests_def)
next
  case (Exists r)
  show ?thesis
  proof (cases r)
    case (Inl e)
    with Exists assms show ?thesis
      by (simp add: count_passing_tests_def split: if_splits)
  next
    case (Inr tests)
    show ?thesis
    proof (cases "count_loaded tests")
      case (Inl e)
      with Inr Exists assms show ?thesis
        by (simp add: count_passing_tests_def split: if_splits)
    next
      case res: (Inr res)
      with Inr Exists assms have "count_loaded tests = Inr (passing, total')"
        by (simp add: count_passing_tests_def)
      then show ?thesis by (rule count_loaded_bounds)
    qed
  qed
qed

text \<open>
  C10: whenever the function returns a pair \<open>(passing, total)\<close>, for any state of the
  file, \<open>0 \<le> passing \<le> total\<close>.
\<close>

theorem count_passing_tests_bounds:
  assumes "count_passing_tests tests_file = Inr (passing, total')"
  shows "0 \<le> passing \<and> passing \<le> total'"
  using assms by (rule count_result_bounds)

lemma scenario_count: "count_passing_tests (Exists (Inr scenario_list)) = Inr (1, 3)"
  by (simp add: count_passing_tests_def count_loaded_def scenario_list_def ascii_def)

theorem count_passing_tests_bounds_witness:
  "count_passing_tests (Exists (Inr scenario_list)) = Inr (1, 3) \<and> (0::int) \<le> 1 \<and> (1::int) \<le> 3"
  using count_passing_tests_bounds [OF scenario_count] scenario_count by simp

lemma sum_passing_append_objects:
  "sum_passing (map JObject ds @ ts) acc =
     sum_passing ts (acc + int (length (filter entry_passes ds)))"
  by (induction ds arbitrary: acc) (simp_all add: entry_passes_def ac_simps split: option.splits)

lemma sum_passing_not_mapping:
  "\<not> is_mapping x \<Longrightarrow> sum_passing (x # rest) acc = Inl AttributeError"
  by (cases x) simp_all

text \<open>
  What the handler does swallow: an \<open>OSError\<close> or a \<open>JSONDecodeError\<close> raised by \<open>open\<close>
  or \<open>json.load\<close> gives \<open>(0, 0)\<close>. Every other exception of the \<open>try\<close> block leaves the
  function: that of an array entry that is not a mapping, and that of a top-level null,
  boolean or number.
\<close>

lemma count_passing_tests_handled:
  "count_passing_tests (Exists (Inl e)) =
     (if e = JSONDecodeError \<or> e = OSError then Inr (0, 0) else Inl e)"
  "\<not> is_mapping x \<Longrightarrow>
     count_passing_tests (Exists (Inr (JArray (map JObject ds @ x # rest)))) =
       Inl AttributeError"
  "count_passing_tests (Exists (Inr JNull)) = Inl TypeError"
  "count_passing_tests (Exists (Inr (JBool b))) = Inl TypeError"
  "count_passing_tests (Exists (Inr (JInt n))) = Inl TypeError"
  "count_passing_tests (Exists (Inr (JFloat f))) = Inl TypeError"
proof -
  assume "\<not> is_mapping x"
  then have "sum_passing (map JObject ds @ x # rest) 0 = Inl AttributeError"
    unfolding sum_passing_append_objects by (rule sum_passing_not_mapping)
  then show "count_passing_tests (Exists (Inr (JArray (map JObject ds @ x # rest)))) =
      Inl AttributeError"
    by (simp add: count_passing_tests_def count_loaded_def handled_def)
qed (simp_all add: count_passing_tests_def count_loaded_def handled_def)

text \<open>
  C2: when the feature list exists and does not parse as a sequence of mappings
  (well-formed JSON whose entries are not mappings included), or an I/O error occurs,
  the result is to be \<open>(0, 0)\<close> with nothing raised. The code does not do so: on the
  well-formed feature list \<open>[1, 2]\<close> the \<open>AttributeError\<close> of \<open>test.get\<close> is raised inside
  the \<open>try\<close> block and is not among the exceptions the handler names, so the call
  raises; and an \<open>OSError\<close> of \<open>exists()\<close> is raised before the \<open>try\<close> block.
\<close>

theorem count_passing_tests_raises:
  "count_passing_tests (Exists (Inr (JArray [JInt 1, JInt 2]))) = Inl AttributeError \<and>
   count_passing_tests (Exists (Inr (JArray [JInt 1, JInt 2]))) \<noteq> Inr (0, 0) \<and>
   count_passing_tests Inaccessible = Inl OSError"
  by (simp add: count_passing_tests_def count_loaded_def handled_def)

subsection \<open>The session header\<close>

lemma decimal_value_str_nat: "decimal_value (str_nat n) = n"
proof (induction n rule: str_nat.induct)
  case (1 n)
  show ?case
  proof (cases "n < 10")
    case True
    then show ?thesis by (simp add: str_nat.simps [of n] decimal_value_def)
  next
    case False
    with 1 have "decimal_value (str_nat (n div 10)) = n div 10" by simp
    with False show ?thesis
      by (simp add: str_nat.simps [of n] decimal_value_def)
  qed
qed

lemma str_nat_digits: "d \<in> set (str_nat n) \<Longrightarrow> 48 \<le> d \<and> d \<le> 57"
proof (induction n rule: str_nat.induct)
  case (1 n)
  show ?case
  proof (cases "n < 10")
    case True
    with 1(2) show ?thesis by (simp add: str_nat.simps [of n])
  next
    case False
    with 1 show ?thesis by (auto simp: str_nat.simps [of n])
  qed
qed

lemma str_nat_nonempty: "str_nat n \<noteq> []"
  by (simp add: str_nat.simps [of n])

lemma str_nat_no_leading_zero: "0 < n \<Longrightarrow> hd (str_nat n) \<noteq> 48"
proof (induction n rule: str_nat.induct)
  case (1 n)
  show ?case
  proof (cases "n < 10")
    case True
    with 1(2) show ?thesis by (simp add: str_nat.simps [of n])
  next
    case False
    then have "0 < n div 10" by simp
    with 1 False have "hd (str_nat (n div 10)) \<noteq> 48" by simp
    with False show ?thesis by (simp add: str_nat.simps [of n] str_nat_nonempty)
  qed
qed

text \<open>
  C7, as amended: the header is an empty line, a rule of exactly 70 \<open>=\<close>, the label line,
  a rule of 70 \<open>=\<close> again and an empty line. The label line is two spaces followed by
  \<open>SESSION n: INITIALIZER\<close> or \<open>SESSION n: CODING AGENT\<close>; it starts in the third column
  and is not centred. For a positive \<open>n\<close> the number is written in decimal digits
  without a leading zero.
\<close>

theorem print_session_header_banner:
  "print_session_header session_num is_initializer out =
     out @ [10] @ replicate 70 61 @ [10] @
     ascii ''  SESSION '' @ str_int session_num @ ascii '': '' @
     (if is_initializer then ascii ''INITIALIZER'' else ascii ''CODING AGENT'') @ [10] @
     replicate 70 61 @ [10, 10] \<and>
   length (replicate 70 (61::nat)) = 70 \<and>
   (0 < session_num \<longrightarrow>
      decimal_value (str_int session_num) = nat session_num \<and>
      list_all (\<lambda>d. 48 \<le> d \<and> d \<le> 57) (str_int session_num) \<and>
      hd (str_int session_num) \<noteq> 48)"
proof (intro conjI impI)
  assume "0 < session_num"
  then show "decimal_value (str_int session_num) = nat session_num"
    by (simp add: str_int_def decimal_value_str_nat)
  from \<open>0 < session_num\<close> show "list_all (\<lambda>d. 48 \<le> d \<and> d \<le> 57) (str_int session_num)"
    by (simp add: str_int_def list_all_iff str_nat_digits)
  from \<open>0 < session_num\<close> show "hd (str_int session_num) \<noteq> 48"
    by (simp add: str_int_def str_nat_no_leading_zero)
qed (simp_all add: print_session_header_def print_line_def Let_def)

lemma str_int_3: "str_int 3 = ascii ''3''"
  by (simp add: str_int_def str_nat.simps ascii_def)

theorem print_session_header_banner_witness:
  "(0::int) < 3 \<and>
   print_session_header 3 True [] =
     [10] @ replicate 70 61 @ [10] @ ascii ''  SESSION 3: INITIALIZER'' @ [10] @
     replicate 70 61 @ [10, 10] \<and>
   decimal_value (ascii ''3'') = 3"
  using print_session_header_banner [of 3 True "[]"]
  by (simp add: str_int_3 ascii_def)

text \<open>
  The claim as stated fails for session 3 of the initializer: the label has 2 columns to
  its left and 46 to its right in the 70 columns of the banner.
\<close>

theorem print_session_header_not_centered:
  "print_session_header 3 True [] =
     [10] @ replicate 70 61 @ [10] @ ascii ''  SESSION 3: INITIALIZER'' @ [10] @
     replicate 70 61 @ [10, 10] \<and>
   \<not> centered_in 70 (ascii ''SESSION 3: INITIALIZER'') (ascii ''  SESSION 3: INITIALIZER'')"
  by (simp add: print_session_header_def print_line_def Let_def str_int_3 ascii_def centered_in_def)
subsection \<open>The progress summary\<close>

lemma marker_cases:
  "get_regression_status U summary_file = Inr st \<Longrightarrow>
     st \<in> {passing_marker, failed_marker, issues_marker, not_yet_run_marker, read_error_marker}"
  by (cases summary_file) (auto simp: get_regression_status_def split: sum.splits if_splits)

lemma markers_no_percent:
  "37 \<notin> set passing_marker" "37 \<notin> set failed_marker" "37 \<notin> set issues_marker"
  "37 \<notin> set not_yet_run_marker" "37 \<notin> set read_error_marker"
  by (simp_all add: passing_marker_def failed_marker_def issues_marker_def
      not_yet_run_marker_def read_error_marker_def ascii_def)

lemma status_no_percent:
  "get_regression_status U summary_file = Inr st \<Longrightarrow> 37 \<notin> set st"
  using marker_cases [of U summary_file st] markers_no_percent by auto

lemma summary_for_no_features:
  assumes "count_passing_tests tests_file = Inr (passing, 0)"
  shows "print_progress_summary U tests_file summary_file out =
     (case get_regression_status U summary_file of
        Inl e \<Rightarrow> Inl e
      | Inr st \<Rightarrow>
          Inr (out @ [10] @ ascii ''Progress: feature_list.json not yet created'' @ [10] @
               ascii ''Regression Status: '' @ st @ [10]))"
  using assms
  by (simp add: print_progress_summary_def print_line_def split: sum.splits)

text \<open>
  When both queries return, the summary ends with the status line, and with a total of
  0 it is the "not yet created" line followed by the status line, without a percent
  sign.
\<close>

lemma summary_when_status_returns:
  assumes "count_passing_tests tests_file = Inr (passing, total')"
    and "get_regression_status U summary_file = Inr st"
  shows "\<exists>progress.
     print_progress_summary U tests_file summary_file out =
       Inr (out @ progress @ ascii ''Regression Status: '' @ st @ [10]) \<and>
     (total' = 0 \<longrightarrow>
        progress = [10] @ ascii ''Progress: feature_list.json not yet created'' @ [10] \<and>
        37 \<notin> set (progress @ ascii ''Regression Status: '' @ st @ [10]))"
proof (cases "total' = 0")
  case True
  let ?p = "[10] @ ascii ''Progress: feature_list.json not yet created'' @ [10]"
  have "print_progress_summary U tests_file summary_file out =
     Inr (out @ ?p @ ascii ''Regression Status: '' @ st @ [10])"
    using assms True by (simp add: summary_for_no_features)
  moreover have "37 \<notin> set (?p @ ascii ''Regression Status: '' @ st @ [10])"
    using status_no_percent [OF assms(2)] by (simp add: ascii_def)
  ultimately show ?thesis by blast
next
  case False
  moreover from assms(1) have "0 \<le> total'" using count_result_bounds by fastforce
  ultimately have "0 < total'" by simp
  with assms False show ?thesis
    by (simp add: print_progress_summary_def print_line_def Let_def float_div_def)
qed

text \<open>
  C6: when the count returns a total of 0 the summary is to report that
  \<open>feature_list.json\<close> is not yet created, without a percentage, and in every case the
  status line of \<open>get_regression_status\<close> is to be appended. The code does not always do
  so: with no feature list (the count is \<open>(0, 0)\<close>) and a summary file on which
  \<open>exists()\<close> raises, \<open>get_regression_status\<close> raises before the first \<open>print\<close>, and the
  summary prints nothing: neither the progress line nor a status line.
\<close>

theorem print_progress_summary_without_status:
  "count_passing_tests Missing = Inr (0, 0) \<and>
   get_regression_status U Inaccessible = Inl OSError \<and>
   print_progress_summary U Missing Inaccessible out = Inl OSError"
  by (simp add: print_progress_summary_def count_passing_tests_def get_regression_status_def)


subsection \<open>The percentage\<close>

lemma round_half_even_error: "\<bar>of_int (round_half_even x) - x\<bar> \<le> 1 / 2"
proof -
  have "of_int \<lfloor>x\<rfloor> \<le> x" "x < of_int \<lfloor>x\<rfloor> + 1" by linarith+
  then show ?thesis
    by (auto simp: round_half_even_def Let_def abs_le_iff)
qed

lemma round_half_even_nonneg: "0 \<le> x \<Longrightarrow> 0 \<le> round_half_even x"
  by (auto simp: round_half_even_def Let_def)

lemma binade_bounds:
  assumes "0 < x"
  shows "2 powi (binade x) \<le> x \<and> x < 2 powi (binade x + 1)"
proof (cases "1 \<le> x")
  case True
  let ?n = "\<lfloor>x\<rfloor>"
  from True have n: "0 < ?n" by linarith
  from bitlen_bounds [OF n] have lo: "2 ^ nat (bitlen ?n - 1) \<le> ?n"
    and hi: "?n < 2 ^ nat (bitlen ?n)" by blast+
  from n have b: "1 \<le> bitlen ?n" by (simp add: bitlen_alt_def)
  have e: "binade x = bitlen ?n - 1" using True by (simp add: binade_def)
  have "(2::rat) powi (bitlen ?n - 1) = of_int (2 ^ nat (bitlen ?n - 1))"
    using b by (simp add: power_int_def)
  also have "\<dots> \<le> of_int ?n" using lo by (simp only: of_int_le_iff)
  also have "\<dots> \<le> x" by linarith
  finally have 1: "2 powi (binade x) \<le> x" using e by simp
  from hi have "?n + 1 \<le> 2 ^ nat (bitlen ?n)" by linarith
  then have "(of_int (?n + 1) :: rat) \<le> of_int (2 ^ nat (bitlen ?n))"
    by (simp only: of_int_le_iff)
  moreover have "x < of_int (?n + 1)" by linarith
  moreover have "(2::rat) powi (bitlen ?n) = of_int (2 ^ nat (bitlen ?n))"
    using b by (simp add: power_int_def)
  ultimately have "x < 2 powi (binade x + 1)" using e by simp
  with 1 show ?thesis ..
next
  case False
  let ?y = "1 / x"
  let ?m = "\<lceil>?y\<rceil> - 1"
  from False assms have y: "1 < ?y" by simp
  then have m: "0 < ?m" by linarith
  have my: "of_int ?m < ?y" "?y \<le> of_int ?m + 1" by linarith+
  from bitlen_bounds [OF m] have lo: "2 ^ nat (bitlen ?m - 1) \<le> ?m"
    and hi: "?m < 2 ^ nat (bitlen ?m)" by blast+
  from m have b: "1 \<le> bitlen ?m" by (simp add: bitlen_alt_def)
  have e: "binade x = - bitlen ?m" using False by (simp add: binade_def)
  from hi have "?m + 1 \<le> 2 ^ nat (bitlen ?m)" by linarith
  then have "(of_int (?m + 1) :: rat) \<le> of_int (2 ^ nat (bitlen ?m))"
    by (simp only: of_int_le_iff)
  moreover have "?y \<le> of_int (?m + 1)" using my by simp
  moreover have "(of_int (2 ^ nat (bitlen ?m)) :: rat) = 2 ^ nat (bitlen ?m)" by simp
  ultimately have "?y \<le> 2 ^ nat (bitlen ?m)" by (metis order_trans)
  with assms have "1 \<le> x * 2 ^ nat (bitlen ?m)" by (simp add: field_simps)
  then have "1 / 2 ^ nat (bitlen ?m) \<le> x" by (simp add: field_simps)
  moreover have "(2::rat) powi (- bitlen ?m) = 1 / 2 ^ nat (bitlen ?m)"
    using b by (simp add: power_int_def field_simps)
  ultimately have 1: "2 powi (binade x) \<le> x" using e by simp
  from lo have "(of_int (2 ^ nat (bitlen ?m - 1)) :: rat) \<le> of_int ?m"
    by (simp only: of_int_le_iff)
  moreover have "(of_int (2 ^ nat (bitlen ?m - 1)) :: rat) = 2 ^ nat (bitlen ?m - 1)" by simp
  ultimately have "2 ^ nat (bitlen ?m - 1) < ?y" using my(1) by (metis order_le_less_trans)
  with assms have "x * 2 ^ nat (bitlen ?m - 1) < 1" by (simp add: field_simps)
  then have "x < 1 / 2 ^ nat (bitlen ?m - 1)" by (simp add: field_simps)
  moreover have "(2::rat) powi (- bitlen ?m + 1) = 1 / 2 ^ nat (bitlen ?m - 1)"
  proof -
    have "- bitlen ?m + 1 = - (bitlen ?m - 1)" by simp
    moreover have "(2::rat) powi (- (bitlen ?m - 1)) = 1 / 2 ^ nat (bitlen ?m - 1)"
      using b by (simp add: power_int_minus power_int_def field_simps)
    ultimately show ?thesis by simp
  qed
  ultimately have "x < 2 powi (binade x + 1)" using e by simp
  with 1 show ?thesis ..
qed

lemma round_double_nonneg: "0 \<le> x \<Longrightarrow> 0 \<le> round_double x"
  by (simp add: round_double_def Let_def round_half_even_nonneg)

lemma round_double_error:
  assumes x: "2 powi (- 1022) \<le> x"
  shows "\<bar>round_double x - x\<bar> \<le> x / 2 ^ 53"
proof -
  have "(0::rat) < 2 powi (- 1022)" by simp
  with x have pos: "0 < x" by linarith
  let ?e = "binade x"
  from binade_bounds [OF pos] have lo: "2 powi ?e \<le> x" and hi: "x < 2 powi (?e + 1)"
    by blast+
  from x hi have "(2::rat) powi (- 1022) < 2 powi (?e + 1)" by linarith
  then have "- 1022 < ?e + 1"
    using power_int_increasing [of "?e + 1" "- 1022" "2::rat"] by (cases "- 1022 < ?e + 1") simp_all
  then have m: "max (?e - 52) (- 1074) = ?e - 52" by simp
  define q :: rat where "q = 2 powi (?e - 52)"
  have q: "0 < q" by (simp add: q_def)
  have rd: "round_double x = of_int (round_half_even (x / q)) * q"
    using pos m by (simp add: round_double_def q_def Let_def)
  have "\<bar>of_int (round_half_even (x / q)) - x / q\<bar> \<le> 1 / 2"
    by (rule round_half_even_error)
  then have a: "\<bar>of_int (round_half_even (x / q)) - x / q\<bar> * q \<le> 1 / 2 * q"
    using q by (intro mult_right_mono) simp_all
  have b: "\<bar>of_int (round_half_even (x / q)) - x / q\<bar> * q = \<bar>round_double x - x\<bar>"
  proof -
    have "\<bar>of_int (round_half_even (x / q)) - x / q\<bar> * q =
        \<bar>(of_int (round_half_even (x / q)) - x / q) * q\<bar>"
      using q by (simp add: abs_mult)
    also have "(of_int (round_half_even (x / q)) - x / q) * q = round_double x - x"
      using q by (simp add: rd algebra_simps)
    finally show ?thesis .
  qed
  from a b have c: "\<bar>round_double x - x\<bar> \<le> 1 / 2 * q" by (simp only:)
  have "1 / 2 * q = 2 powi ?e / 2 ^ 53"
    by (simp add: q_def power_int_diff)
  with c have "\<bar>round_double x - x\<bar> \<le> 2 powi ?e / 2 ^ 53" by (simp only:)
  also have "\<dots> \<le> x / 2 ^ 53" using lo by (simp add: divide_right_mono)
  finally show ?thesis .
qed

lemma percentage_error:
  fixes p t :: int
  assumes p: "0 < p" "p \<le> t" and t: "t \<le> 2 ^ 40"
  shows "\<bar>of_int (round_half_even (float_mul (float_quotient p t) 100 * 10)) / 10 -
      100 * of_int p / of_int t\<bar> \<le> (1 / 20 :: rat)"
proof -
  define y :: rat where "y = of_int p / of_int t"
  define a where "a = round_double y"
  define b where "b = round_double (a * 100)"
  define n where "n = round_half_even (b * 10)"
  define c :: rat where "c = 1 / 2 ^ 53"
  have c: "0 < c" "c * 8192 = 1 / 2 ^ 40" by (simp_all add: c_def)
  from p have tpos: "0 < t" by linarith
  then have T: "(0::rat) < of_int t" by simp
  from t have "(of_int t :: rat) \<le> of_int (2 ^ 40)" by (simp only: of_int_le_iff)
  then have T40: "(of_int t :: rat) \<le> 2 ^ 40" by simp
  from p have P: "(1::rat) \<le> of_int p" "(of_int p :: rat) \<le> of_int t" by simp_all
  have yt: "y * of_int t = of_int p" using T by (simp add: y_def)
  have y_le: "y \<le> 1" using P T by (simp add: y_def)
  have "1 / of_int t \<le> y" using P T by (simp add: y_def divide_right_mono)
  moreover have "(1::rat) / 2 ^ 40 \<le> 1 / of_int t" using T T40 by (simp add: frac_le)
  ultimately have y_ge: "1 / 2 ^ 40 \<le> y" by linarith
  have tiny: "(2::rat) powi (- 1022) \<le> 1 / 2 ^ 40"
    using power_int_increasing [of "- 1022" "- 40" "2::rat"]
    by (simp add: power_int_minus inverse_eq_divide del: power_int_numeral_neg_numeral)
  have "\<bar>a - y\<bar> \<le> y / 2 ^ 53"
    unfolding a_def using tiny y_ge by (intro round_double_error) linarith
  then have ea: "\<bar>a - y\<bar> \<le> y * c" by (simp add: c_def)
  have cy: "y * c \<le> y / 2" using y_ge by (simp add: c_def)
  from ea cy have a_bounds: "y / 2 \<le> a" "a \<le> 2 * y" by linarith+
  have "2 powi (- 1022) \<le> a * 100" using a_bounds y_ge tiny by linarith
  then have "\<bar>b - a * 100\<bar> \<le> a * 100 / 2 ^ 53"
    unfolding b_def by (rule round_double_error)
  then have eb: "\<bar>b - a * 100\<bar> \<le> 100 * (a * c)" by (simp add: c_def)
  have "a * c \<le> (2 * y) * c"
    using a_bounds c by (intro mult_right_mono) simp_all
  then have "a * c \<le> 2 * (y * c)" by (simp only: mult.assoc)
  with eb have eb': "\<bar>b - a * 100\<bar> \<le> 200 * (y * c)" by linarith
  have en: "\<bar>of_int n - b * 10\<bar> \<le> 1 / 2"
    unfolding n_def by (rule round_half_even_error)
  from ea eb' en have "\<bar>of_int n - 1000 * y\<bar> \<le> 1 / 2 + 3000 * (y * c)" by linarith
  moreover have "y * c \<le> c" using y_le c by (simp add: mult_left_le_one_le)
  ultimately have e: "\<bar>of_int n - 1000 * y\<bar> \<le> 1 / 2 + 3000 * c" by linarith
  define D :: int where "D = 2 * t * n - 2000 * p"
  have D: "(of_int D :: rat) = 2 * of_int t * (of_int n - 1000 * y)"
    using yt by (simp add: D_def algebra_simps)
  have "\<bar>of_int D :: rat\<bar> = 2 * of_int t * \<bar>of_int n - 1000 * y\<bar>"
    using T by (simp add: D abs_mult)
  also have "\<dots> \<le> 2 * of_int t * (1 / 2 + 3000 * c)"
    using T e by (intro mult_left_mono) simp_all
  also have "\<dots> = of_int t + of_int t * (6000 * c)" by (simp add: algebra_simps)
  also have "of_int t * (6000 * c) \<le> 2 ^ 40 * (6000 * c)"
    using T40 c by (intro mult_right_mono) simp_all
  also have "(2::rat) ^ 40 * (6000 * c) < 1" by (simp add: c_def)
  finally have "\<bar>of_int D :: rat\<bar> < of_int t + 1" by simp
  then have "(of_int \<bar>D\<bar> :: rat) < of_int (t + 1)" by simp
  then have "\<bar>D\<bar> < t + 1" by (simp only: of_int_less_iff)
  then have "\<bar>D\<bar> \<le> t" by simp
  then have "(of_int \<bar>D\<bar> :: rat) \<le> of_int t" by (simp only: of_int_le_iff)
  then have Dt: "\<bar>of_int D :: rat\<bar> \<le> of_int t" by simp
  have "of_int n / 10 - 100 * y = of_int D / (20 * of_int t)"
    using T by (simp add: D field_simps)
  then have "\<bar>of_int n / 10 - 100 * y\<bar> = \<bar>of_int D :: rat\<bar> / (20 * of_int t)"
    using T by (simp add: abs_mult)
  also have "\<dots> \<le> of_int t / (20 * of_int t)"
    using Dt T by (intro divide_right_mono) simp_all
  also have "\<dots> = 1 / 20" using T by simp
  finally have "\<bar>of_int n / 10 - 100 * y\<bar> \<le> 1 / 20" .
  then show ?thesis
    by (simp add: n_def b_def a_def y_def float_mul_def float_quotient_def)
qed

lemma percentage_nonneg:
  "0 \<le> p \<Longrightarrow> 0 < t \<Longrightarrow> 0 \<le> float_mul (float_quotient p t) 100"
  by (simp add: float_mul_def float_quotient_def round_double_nonneg)

lemma format_1f_nonneg:
  "0 \<le> x \<Longrightarrow>
     format_1f x = str_int (round_half_even (x * 10) div 10) @ ascii ''.'' @
       str_int (round_half_even (x * 10) mod 10)"
  by (simp add: format_1f_def Let_def)

lemma percentage_zero: "float_mul (float_quotient 0 t) 100 = 0"
  by (simp add: float_mul_def float_quotient_def round_double_def)

lemma round_half_even_zero: "round_half_even 0 = 0"
  by (simp add: round_half_even_def)

text \<open>
  C5, as amended: when the count returns \<open>(passing, total)\<close> with \<open>total > 0\<close> and the
  status query returns, the progress line is
  \<open>Progress: passing/total tests passing (d.d%)\<close>, where the percentage is the \<open>float\<close>
  \<open>(passing / total) * 100\<close> (the quotient rounded, then the product rounded) in the
  format \<open>.1f\<close>. For totals up to \<open>2^40\<close> the printed decimal is within \<open>0.05\<close> of
  \<open>100 * passing / total\<close>; which neighbour is printed at a tie is decided by the rounded
  \<open>float\<close>, not by the exact quotient.
\<close>

theorem print_progress_summary_percentage:
  assumes "count_passing_tests tests_file = Inr (passing, total')" and "0 < total'"
  shows "\<exists>n.
     float_div passing total' = Inr (float_quotient passing total') \<and>
     n = round_half_even (float_mul (float_quotient passing total') 100 * 10) \<and>
     print_progress_summary U tests_file summary_file out =
       (case get_regression_status U summary_file of
          Inl e \<Rightarrow> Inl e
        | Inr st \<Rightarrow>
            Inr (out @ [10] @ ascii ''Progress: '' @ str_int passing @ ascii ''/'' @
                 str_int total' @ ascii '' tests passing ('' @
                 str_int (n div 10) @ ascii ''.'' @ str_int (n mod 10) @ ascii ''%)'' @ [10] @
                 ascii ''Regression Status: '' @ st @ [10])) \<and>
     0 \<le> n \<and>
     (total' \<le> 2 ^ 40 \<longrightarrow>
        \<bar>of_int n / 10 - 100 * of_int passing / of_int total'\<bar> \<le> (1 / 20 :: rat))"
proof -
  from assms(1) have b: "0 \<le> passing" "passing \<le> total'"
    using count_result_bounds by blast+
  from assms(2) have q: "float_div passing total' = Inr (float_quotient passing total')"
    by (simp add: float_div_def)
  let ?x = "float_mul (float_quotient passing total') 100"
  let ?n = "round_half_even (?x * 10)"
  from b assms(2) have x: "0 \<le> ?x" by (intro percentage_nonneg)
  then have n: "0 \<le> ?n" by (intro round_half_even_nonneg) simp
  have "print_progress_summary U tests_file summary_file out =
       (case get_regression_status U summary_file of
          Inl e \<Rightarrow> Inl e
        | Inr st \<Rightarrow>
            Inr (out @ [10] @ ascii ''Progress: '' @ str_int passing @ ascii ''/'' @
                 str_int total' @ ascii '' tests passing ('' @
                 str_int (?n div 10) @ ascii ''.'' @ str_int (?n mod 10) @ ascii ''%)'' @ [10] @
                 ascii ''Regression Status: '' @ st @ [10]))"
    using assms q
    by (simp add: print_progress_summary_def print_line_def format_1f_nonneg [OF x]
        split: sum.splits)
  moreover have "\<bar>of_int ?n / 10 - 100 * of_int passing / of_int total'\<bar> \<le> (1 / 20 :: rat)"
    if "total' \<le> 2 ^ 40"
  proof (cases "passing = 0")
    case True
    then show ?thesis by (simp add: percentage_zero round_half_even_zero)
  next
    case False
    with b have "0 < passing" by simp
    then show ?thesis using b that by (intro percentage_error)
  qed
  ultimately show ?thesis using n q by blast
qed

lemma scenario_digits:
  "round_half_even (float_mul (float_quotient 1 3) 100 * 10) = 333"
  by code_simp

lemma str_int_small:
  "str_int 1 = ascii ''1''" "str_int 3 = ascii ''3''" "str_int 33 = ascii ''33''"
  "str_int 23 = ascii ''23''" "str_int 80 = ascii ''80''"
  by code_simp+

theorem print_progress_summary_percentage_witness:
  "count_passing_tests (Exists (Inr scenario_list)) = Inr (1, 3) \<and> (0::int) < 3 \<and>
   print_progress_summary demo_table (Exists (Inr scenario_list)) Missing [] =
     Inr ([10] @ ascii ''Progress: 1/3 tests passing (33.3%)'' @ [10] @
          ascii ''Regression Status: '' @ not_yet_run_marker @ [10]) \<and>
   \<bar>333 / 10 - 100 * 1 / 3\<bar> \<le> (1 / 20 :: rat)"
proof -
  have t: "(0::int) < 3" by simp
  have st: "get_regression_status demo_table Missing = Inr not_yet_run_marker"
    by (simp add: get_regression_status_def)
  from print_progress_summary_percentage [OF scenario_count t, of demo_table Missing "[]"]
  obtain n where n: "n = round_half_even (float_mul (float_quotient 1 3) 100 * 10)"
    and out: "print_progress_summary demo_table (Exists (Inr scenario_list)) Missing [] =
       (case get_regression_status demo_table Missing of
          Inl e \<Rightarrow> Inl e
        | Inr st \<Rightarrow>
            Inr ([] @ [10] @ ascii ''Progress: '' @ str_int 1 @ ascii ''/'' @
                 str_int 3 @ ascii '' tests passing ('' @
                 str_int (n div 10) @ ascii ''.'' @ str_int (n mod 10) @ ascii ''%)'' @ [10] @
                 ascii ''Regression Status: '' @ st @ [10]))"
    and e: "3 \<le> (2::int) ^ 40 \<longrightarrow> \<bar>of_int n / 10 - 100 * of_int 1 / of_int 3\<bar> \<le> (1 / 20 :: rat)"
    by blast
  from n have n333: "n = 333" by (simp only: scenario_digits)
  from out n333 have "print_progress_summary demo_table (Exists (Inr scenario_list)) Missing [] =
     Inr ([10] @ ascii ''Progress: 1/3 tests passing (33.3%)'' @ [10] @
          ascii ''Regression Status: '' @ not_yet_run_marker @ [10])"
    by (simp add: st str_int_small ascii_def)
  moreover from e n333 have "\<bar>333 / 10 - 100 * 1 / 3\<bar> \<le> (1 / 20 :: rat)" by simp
  ultimately show ?thesis using scenario_count by simp
qed

lemma count_objects:
  "count_passing_tests (Exists (Inr (JArray (map JObject ds)))) =
     Inr (int (length (filter entry_passes ds)), int (length ds))"
  by (simp add: count_passing_tests_def count_loaded_def sum_passing_objects)

lemma count_23_of_80: "count_passing_tests (Exists (Inr list_23_of_80)) = Inr (23, 80)"
  unfolding list_23_of_80_def count_objects by (simp add: entry_passes_def ascii_def)

lemma format_23_of_80:
  "format_1f (float_mul (float_quotient 23 80) 100) = ascii ''28.7''"
  "format_1f (float_quotient (100 * 23) 80) = ascii ''28.8''"
  "format_1f (100 * 23 / 80) = ascii ''28.8''"
  by code_simp+

text \<open>
  The claim as stated fails for 23 passing entries of 80: \<open>100 * 23 / 80\<close> is \<open>28.75\<close>
  and is formatted as \<open>28.8\<close>, both as the \<open>float\<close> expression and as the exact number;
  the function computes \<open>(23 / 80) * 100\<close>, a \<open>float\<close> just below \<open>28.75\<close>, and prints
  \<open>28.7\<close>.
\<close>

theorem percentage_23_of_80:
  "count_passing_tests (Exists (Inr list_23_of_80)) = Inr (23, 80) \<and>
   print_progress_summary demo_table (Exists (Inr list_23_of_80)) Missing [] =
     Inr ([10] @ ascii ''Progress: 23/80 tests passing (28.7%)'' @ [10] @
          ascii ''Regression Status: '' @ not_yet_run_marker @ [10]) \<and>
   format_1f (float_quotient (100 * 23) 80) = ascii ''28.8'' \<and>
   format_1f (100 * 23 / 80) = ascii ''28.8''"
proof (intro conjI)
  show "print_progress_summary demo_table (Exists (Inr list_23_of_80)) Missing [] =
     Inr ([10] @ ascii ''Progress: 23/80 tests passing (28.7%)'' @ [10] @
          ascii ''Regression Status: '' @ not_yet_run_marker @ [10])"
    by (simp add: print_progress_summary_def count_23_of_80 get_regression_status_def
        print_line_def float_div_def format_23_of_80(1) str_int_small ascii_def)
qed (rule count_23_of_80 format_23_of_80)+

end
